theory Spec2Isabelle
  imports Complex_Main
begin

section \<open>The Redis store as the two middlewares use it\<close>

text \<open>
  Both rate limiters keep one value per client address in Redis and talk to it with
  three commands: \<^verbatim>\<open>GET key\<close>, \<^verbatim>\<open>SET key value EX seconds\<close> and \<^verbatim>\<open>INCR key\<close>.
  The database is a map from keys to a value and an optional expiry instant. Time is the
  value of a millisecond clock (\<^verbatim>\<open>Date.now()\<close>), an integer (the list limiter subtracts
  a whole window from it, which is negative near zero). Redis treats a key as expired when
  the clock is past its expiry instant: a key set with \<^verbatim>\<open>EX s\<close> at instant \<open>t\<close> is
  readable up to and including \<open>t + 1000 * s\<close> and gone after it. The concrete
  situations below keep away from expiry instants.

  The counter limiter stores a decimal number (what \<^verbatim>\<open>parseInt(record, 10)\<close> reads
  and \<^verbatim>\<open>INCR\<close> increments): its values are integers. The list limiter stores the JSON
  text of a list of entries: its values are entry lists. Values that neither limiter
  writes (text that is not a number, JSON that is not such a list) are outside the model.
\<close>

type_synonym key = string

type_synonym 'v redis = "key \<rightharpoonup> ('v \<times> int option)"

definition live :: "int option \<Rightarrow> int \<Rightarrow> bool" where
  "live expiry now = (case expiry of None \<Rightarrow> True | Some e \<Rightarrow> now \<le> e)"

definition redis_get :: "'v redis \<Rightarrow> int \<Rightarrow> key \<Rightarrow> 'v option" where
  "redis_get db now k =
     (case db k of
        None \<Rightarrow> None
      | Some (v, expiry) \<Rightarrow> if live expiry now then Some v else None)"

definition redis_set_ex :: "key \<Rightarrow> 'v \<Rightarrow> int \<Rightarrow> int \<Rightarrow> 'v redis \<Rightarrow> 'v redis" where
  "redis_set_ex k v seconds now db = db(k \<mapsto> (v, Some (now + seconds * 1000)))"

text \<open>
  \<^verbatim>\<open>INCR\<close> adds one to the number under a readable key and leaves its expiry as it is;
  on a key that is not there (or has expired) it stores 1 with no expiry.
\<close>

definition redis_incr :: "key \<Rightarrow> int \<Rightarrow> int redis \<Rightarrow> int redis" where
  "redis_incr k now db =
     (case db k of
        None \<Rightarrow> db(k \<mapsto> (1, None))
      | Some (v, expiry) \<Rightarrow>
          if live expiry now then db(k \<mapsto> (v + 1, expiry)) else db(k \<mapsto> (1, None)))"

text \<open>
  The client calls the \<^verbatim>\<open>get\<close> callback with \<^verbatim>\<open>(err, record)\<close>: an error when the
  server cannot be reached, else the value or \<^verbatim>\<open>null\<close>.
\<close>

datatype conn = Up | Down string

datatype 'v reply = Err string | Reply "'v option"

definition client_get :: "conn \<Rightarrow> 'v redis \<Rightarrow> int \<Rightarrow> key \<Rightarrow> 'v reply" where
  "client_get c db now k = (case c of Down e \<Rightarrow> Err e | Up \<Rightarrow> Reply (redis_get db now k))"

section \<open>What a middleware does with a request\<close>

text \<open>
  A middleware either calls \<^verbatim>\<open>next()\<close> (the request is admitted), or answers with a
  status and a JSON object (\<^verbatim>\<open>res.status(429).json({...})\<close>), or throws.
\<close>

datatype error = RedisError string | TypeError

datatype outcome = Next | Respond int "(string \<times> string) list" | Throw error

definition admitted :: "outcome \<Rightarrow> bool" where
  "admitted out = (out = Next)"

definition rejected :: "outcome \<Rightarrow> bool" where
  "rejected out = (case out of Respond status body \<Rightarrow> status = 429 | _ \<Rightarrow> False)"

definition retryAfterSeconds :: "outcome \<Rightarrow> string option" where
  "retryAfterSeconds out =
     (case out of Respond status body \<Rightarrow> map_of body ''retryAfterSeconds'' | _ \<Rightarrow> None)"

text \<open>Decimal text of a number, as a template literal renders it.\<close>

fun digits :: "nat \<Rightarrow> string" where
  "digits n =
     (if n < 10 then [char_of (48 + n)]
      else digits (n div 10) @ [char_of (48 + n mod 10)])"

declare digits.simps [simp del]

definition number_text :: "int \<Rightarrow> string" where
  "number_text i = (if i < 0 then CHR ''-'' # digits (nat (- i)) else digits (nat i))"

section \<open>The counter limiter: \<^verbatim>\<open>rateLimitMiddleware\<close>\<close>

definition requestLimits :: int where
  "requestLimits = 10"

definition ttl :: int where
  "ttl = 60"

text \<open>
  The callback given to \<^verbatim>\<open>redisClient.get\<close>. It decides on the value it was called
  with and then writes with \<^verbatim>\<open>SET ... EX\<close> or \<^verbatim>\<open>INCR\<close>, whatever the database holds
  by then. (\<^verbatim>\<open>currentTime\<close>, computed before the \<^verbatim>\<open>get\<close>, is not used by the source.)
\<close>

definition rateLimitCallback ::
    "int reply \<Rightarrow> int \<Rightarrow> key \<Rightarrow> int redis \<Rightarrow> outcome \<times> int redis" where
  "rateLimitCallback r now ip db =
     (case r of
        Err e \<Rightarrow> (Throw (RedisError e), db)
      | Reply None \<Rightarrow> (Next, redis_set_ex ip 1 ttl now db)
      | Reply (Some requestCount) \<Rightarrow>
          if requestCount \<ge> requestLimits
          then (Respond 429 [(''message'', ''Too many requests. Please try again later.'')], db)
          else (Next, redis_incr ip now db))"

text \<open>
  One request handled alone: the server answers its \<^verbatim>\<open>GET\<close> at instant \<open>asked\<close>, the
  callback runs at instant \<open>now\<close> and its write reaches the same database, with no other
  request's command in between. Time may pass between the two instants.
\<close>

definition rateLimitMiddleware ::
    "conn \<Rightarrow> int \<Rightarrow> int \<Rightarrow> key \<Rightarrow> int redis \<Rightarrow> outcome \<times> int redis" where
  "rateLimitMiddleware c asked now ip db =
     rateLimitCallback (client_get c db asked ip) now ip db"

section \<open>The list limiter: \<^verbatim>\<open>rateLimiterMiddleware\<close>\<close>

record entry =
  timeStamp :: int
  requestCount :: int

definition rateLimitWindow :: int where
  "rateLimitWindow = 60"

definition maxRequests :: int where
  "maxRequests = 10"

definition exceeded_message :: string where
  "exceeded_message =
     ''You have exceeded the '' @ number_text maxRequests @ '' requests in ''
       @ number_text rateLimitWindow @ '' seconds limit!''"

definition requestsWithinWindow :: "entry list \<Rightarrow> int \<Rightarrow> entry list" where
  "requestsWithinWindow data now =
     (let windowStartTimestamp = now - rateLimitWindow * 1000
      in filter (\<lambda>e. timeStamp e > windowStartTimestamp) data)"

definition totalWindowRequests :: "entry list \<Rightarrow> int" where
  "totalWindowRequests inWindow = foldl (\<lambda>accumulator e. accumulator + requestCount e) 0 inWindow"

text \<open>
  The callback given to \<^verbatim>\<open>redisClient.get\<close>. When every entry of the record is older
  than the window, \<^verbatim>\<open>requestsWithinWindow\<close> is empty, \<^verbatim>\<open>lastRequestLog\<close> is
  \<^verbatim>\<open>undefined\<close> and reading its \<^verbatim>\<open>timeStamp\<close> throws a TypeError.
\<close>

definition rateLimiterCallback ::
    "entry list reply \<Rightarrow> int \<Rightarrow> key \<Rightarrow> entry list redis \<Rightarrow> outcome \<times> entry list redis" where
  "rateLimiterCallback r currentRequestTime userIP db =
     (case r of
        Err e \<Rightarrow> (Throw (RedisError e), db)
      | Reply None \<Rightarrow>
          (Next,
           redis_set_ex userIP [\<lparr>timeStamp = currentRequestTime, requestCount = 1\<rparr>]
             rateLimitWindow currentRequestTime db)
      | Reply (Some data) \<Rightarrow>
          (let inWindow = requestsWithinWindow data currentRequestTime
           in if totalWindowRequests inWindow \<ge> maxRequests
              then (Respond 429 [(''message'', exceeded_message)], db)
              else if inWindow = [] then (Throw TypeError, db)
              else
                (let lastRequestLog = last inWindow
                 in if timeStamp lastRequestLog > currentRequestTime - 1000
                    then (Next,
                          redis_set_ex userIP
                            (butlast inWindow @
                               [lastRequestLog\<lparr>requestCount := requestCount lastRequestLog + 1\<rparr>])
                            rateLimitWindow currentRequestTime db)
                    else (Next,
                          redis_set_ex userIP
                            (inWindow @ [\<lparr>timeStamp = currentRequestTime, requestCount = 1\<rparr>])
                            rateLimitWindow currentRequestTime db))))"

text \<open>
  One request handled alone, as for the counter limiter. \<^verbatim>\<open>currentRequestTime\<close> is read
  inside the callback: it is the instant \<open>now\<close> at which the callback runs.
\<close>

definition rateLimiterMiddleware ::
    "conn \<Rightarrow> int \<Rightarrow> int \<Rightarrow> key \<Rightarrow> entry list redis \<Rightarrow> outcome \<times> entry list redis" where
  "rateLimiterMiddleware c asked now userIP db =
     rateLimiterCallback (client_get c db asked userIP) now userIP db"

section \<open>Sequences of requests\<close>

text \<open>
  A request is the state of the connection when it arrives, the instant at which its
  \<^verbatim>\<open>GET\<close> is answered, the instant at which its callback runs, and the client address.
  \<open>run\<close> handles requests one after the other, each one alone; \<open>admissions\<close> counts the
  requests of one address that were admitted.
\<close>

datatype request = Request (link: conn) (asked: int) (answered: int) (client: key)

fun run ::
    "(conn \<Rightarrow> int \<Rightarrow> int \<Rightarrow> key \<Rightarrow> 'v redis \<Rightarrow> outcome \<times> 'v redis) \<Rightarrow> request list
      \<Rightarrow> 'v redis \<Rightarrow> outcome list \<times> 'v redis" where
  "run mw [] db = ([], db)"
| "run mw (Request c g now ip # rest) db =
     (case mw c g now ip db of
        (out, db1) \<Rightarrow> (case run mw rest db1 of (outs, db2) \<Rightarrow> (out # outs, db2)))"


text \<open>
  Requests that overlap: every \<^verbatim>\<open>GET\<close> is answered from the same database before
  the first callback runs, then the callbacks run in turn.
\<close>

fun callbacks ::
    "('v reply \<Rightarrow> int \<Rightarrow> key \<Rightarrow> 'v redis \<Rightarrow> outcome \<times> 'v redis) \<Rightarrow> 'v reply list \<Rightarrow> int \<Rightarrow> key
      \<Rightarrow> 'v redis \<Rightarrow> outcome list \<times> 'v redis" where
  "callbacks cb [] now ip db = ([], db)"
| "callbacks cb (r # rs) now ip db =
     (case cb r now ip db of
        (out, db1) \<Rightarrow> (case callbacks cb rs now ip db1 of (outs, db2) \<Rightarrow> (out # outs, db2)))"

definition overlapped ::
    "('v reply \<Rightarrow> int \<Rightarrow> key \<Rightarrow> 'v redis \<Rightarrow> outcome \<times> 'v redis) \<Rightarrow> nat \<Rightarrow> int \<Rightarrow> key
      \<Rightarrow> 'v redis \<Rightarrow> outcome list \<times> 'v redis" where
  "overlapped cb n now ip db = callbacks cb (replicate n (client_get Up db now ip)) now ip db"

text \<open>
  \<open>in_window a seconds r\<close>: both instants of the request \<open>r\<close> lie in the window of
  \<open>seconds\<close> seconds that starts at instant \<open>a\<close>. \<open>up_for ip r\<close>: \<open>r\<close> is a request of
  \<open>ip\<close> that reaches the server.
\<close>

definition in_window :: "int \<Rightarrow> int \<Rightarrow> request \<Rightarrow> bool" where
  "in_window a seconds r =
     (a \<le> asked r \<and> asked r < a + seconds * 1000 \<and>
      a \<le> answered r \<and> answered r < a + seconds * 1000)"

definition up_for :: "key \<Rightarrow> request \<Rightarrow> bool" where
  "up_for ip r = (link r = Up \<and> client r = ip)"

text \<open>The two answers of a rejection.\<close>

definition too_many :: outcome where
  "too_many = Respond 429 [(''message'', ''Too many requests. Please try again later.'')]"

definition exceeded :: outcome where
  "exceeded =
     Respond 429 [(''message'', ''You have exceeded the 10 requests in 60 seconds limit!'')]"

section \<open>Concrete situations\<close>

text \<open>A client that has used its whole quota at instant 0, in each limiter's store.\<close>

definition full_counter :: "int redis" where
  "full_counter = [''10.0.0.1'' \<mapsto> (10, Some 60000)]"

definition full_list :: "entry list redis" where
  "full_list = [''10.0.0.1'' \<mapsto> ([\<lparr>timeStamp = 0, requestCount = 10\<rparr>], Some 60000)]"

text \<open>A client with one request counted at instant 0.\<close>

definition one_counter :: "int redis" where
  "one_counter = [''10.0.0.1'' \<mapsto> (1, Some 60000)]"

text \<open>A list record with one entry that has left the window at instant 70000.\<close>

definition old_list :: "entry list redis" where
  "old_list = [''10.0.0.1'' \<mapsto>
     ([\<lparr>timeStamp = 0, requestCount = 3\<rparr>, \<lparr>timeStamp = 40000, requestCount = 2\<rparr>],
      Some 100000)]"

definition two_entries :: "entry list" where
  "two_entries = [\<lparr>timeStamp = 0, requestCount = 3\<rparr>, \<lparr>timeStamp = 40000, requestCount = 2\<rparr>]"

text \<open>
  A client that sends two requests within a second and comes back just after the first
  one has left the window, while the record is still readable.
\<close>

definition comes_back :: "request list" where
  "comes_back =
     [Request Up 0 0 ''10.0.0.1'', Request Up 500 500 ''10.0.0.1'',
      Request Up 60200 60200 ''10.0.0.1'']"

text \<open>
  \<open>spaced ip t gap n\<close>: \<open>n\<close> requests of \<open>ip\<close>, the first answered at instant \<open>t\<close>, each
  callback one millisecond after its answer, each request \<open>gap\<close> milliseconds after the one
  before.
\<close>

fun spaced :: "key \<Rightarrow> int \<Rightarrow> int \<Rightarrow> nat \<Rightarrow> request list" where
  "spaced ip t gap 0 = []"
| "spaced ip t gap (Suc n) = Request Up t (t + 1) ip # spaced ip (t + gap) gap n"

text \<open>Twelve requests of one client within a tenth of a second.\<close>

definition burst :: "request list" where
  "burst = spaced ''10.0.0.1'' 0 7 12"


text \<open>Eleven requests of one client in the second half of second 0.\<close>

definition early :: "request list" where
  "early = spaced ''10.0.0.1'' 500 40 11"

text \<open>
  A client that uses its quota in the first tenth of a second, asks again at 59 seconds,
  and sends eleven requests at 61 seconds.
\<close>

definition refill :: "request list" where
  "refill = spaced ''10.0.0.1'' 0 10 10 @ [Request Up 59000 59001 ''10.0.0.1'']
      @ spaced ''10.0.0.1'' 61000 10 11"

text \<open>
  A client of the counter limiter whose second request is answered just before its record
  expires (at 60001) and whose callback runs just after, followed by nine more requests a
  second later.
\<close>

definition lockout :: "request list" where
  "lockout = [Request Up 0 1 ''10.0.0.1'', Request Up 59999 60003 ''10.0.0.1'']
      @ spaced ''10.0.0.1'' 61000 10 9"

section \<open>The estimate of the specification\<close>

text \<open>
  These two definitions follow the words of the specification (its decision algorithm,
  steps 5 and 6), not the source: neither middleware computes anything of the kind. They
  are here only to be compared with what the source does. Time is in seconds here, as in
  the specification.
\<close>

definition spec_elapsedFraction :: "int \<Rightarrow> int \<Rightarrow> real" where
  "spec_elapsedFraction now W = real_of_int (now mod W) / real_of_int W"

definition spec_estimate :: "int \<Rightarrow> int \<Rightarrow> real \<Rightarrow> real" where
  "spec_estimate previousCount currentCount fraction =
     real_of_int previousCount * (1 - fraction) + real_of_int currentCount"

section \<open>The list limiter can throw\<close>

text \<open>
  The second request bumps the entry of the first and moves the expiry to 60500. At 60200
  the record is read, its only entry (of instant 0) is filtered out, the total 0 is below
  the quota, and \<^verbatim>\<open>lastRequestLog.timeStamp\<close> is read from \<^verbatim>\<open>undefined\<close>.
\<close>

lemma comes_back_throws:
  "fst (run rateLimiterMiddleware comes_back Map.empty) = [Next, Next, Throw TypeError]"
  by code_simp

section \<open>C5: a rejection writes nothing\<close>

lemma rateLimitCallback_rejected:
  "rejected (fst (rateLimitCallback r now ip db)) \<Longrightarrow>
     snd (rateLimitCallback r now ip db) = db \<and> (\<exists>n. r = Reply (Some n) \<and> n \<ge> requestLimits)"
  by (auto simp: rateLimitCallback_def rejected_def split: reply.splits option.splits if_splits)

lemma rateLimiterCallback_rejected:
  "rejected (fst (rateLimiterCallback r now ip db)) \<Longrightarrow>
     snd (rateLimiterCallback r now ip db) = db \<and>
     (\<exists>data. r = Reply (Some data) \<and>
        totalWindowRequests (requestsWithinWindow data now) \<ge> maxRequests)"
  by (auto simp: rateLimiterCallback_def rejected_def Let_def
      split: reply.splits option.splits if_splits)

lemma full_counter_rejected:
  "rejected (fst (rateLimitMiddleware Up 0 0 ''10.0.0.1'' full_counter))"
  by (simp add: rateLimitMiddleware_def rateLimitCallback_def client_get_def redis_get_def
      live_def full_counter_def requestLimits_def rejected_def)

lemma full_list_rejected:
  "rejected (fst (rateLimiterMiddleware Up 0 0 ''10.0.0.1'' full_list))"
  by (simp add: rateLimiterMiddleware_def rateLimiterCallback_def client_get_def redis_get_def
      live_def full_list_def maxRequests_def rejected_def requestsWithinWindow_def
      totalWindowRequests_def rateLimitWindow_def)

text \<open>
  C5. A rejection writes nothing. In both limiters a request is rejected only when the
  value read reaches the quota (the stored count, or the sum of the counts inside the
  window), and then the callback returns the database exactly as it found it, whatever
  that database is.
\<close>

theorem rejection_writes_nothing:
  "(rejected (fst (rateLimitCallback r now ip db)) \<longrightarrow>
      snd (rateLimitCallback r now ip db) = db \<and>
      (\<exists>n. r = Reply (Some n) \<and> n \<ge> requestLimits)) \<and>
   (rejected (fst (rateLimiterCallback r' now ip db')) \<longrightarrow>
      snd (rateLimiterCallback r' now ip db') = db' \<and>
      (\<exists>data. r' = Reply (Some data) \<and>
         totalWindowRequests (requestsWithinWindow data now) \<ge> maxRequests))"
  using rateLimitCallback_rejected rateLimiterCallback_rejected by blast

theorem rejection_writes_nothing_witness:
  "rejected (fst (rateLimitMiddleware Up 0 0 ''10.0.0.1'' full_counter)) \<and>
   snd (rateLimitMiddleware Up 0 0 ''10.0.0.1'' full_counter) = full_counter \<and>
   rejected (fst (rateLimiterMiddleware Up 0 0 ''10.0.0.1'' full_list)) \<and>
   snd (rateLimiterMiddleware Up 0 0 ''10.0.0.1'' full_list) = full_list"
  using rejection_writes_nothing
      [of "client_get Up full_counter 0 ''10.0.0.1''" 0 "''10.0.0.1''" full_counter
          "client_get Up full_list 0 ''10.0.0.1''" full_list]
    full_counter_rejected full_list_rejected
  by (simp add: rateLimitMiddleware_def rateLimiterMiddleware_def)

section \<open>C4: what a rejection answers\<close>

lemma exceeded_message_text:
  "exceeded_message = ''You have exceeded the 10 requests in 60 seconds limit!''"
  by code_simp

lemma rateLimitCallback_no_hint: "retryAfterSeconds (fst (rateLimitCallback r now ip db)) = None"
  by (simp add: rateLimitCallback_def retryAfterSeconds_def split: reply.splits option.splits)

lemma rateLimiterCallback_no_hint: "retryAfterSeconds (fst (rateLimiterCallback r now ip db)) = None"
  by (simp add: rateLimiterCallback_def retryAfterSeconds_def Let_def split: reply.splits option.splits)

lemma rateLimitCallback_rejected_shape:
  "rejected (fst (rateLimitCallback r now ip db)) \<Longrightarrow>
     fst (rateLimitCallback r now ip db) =
       Respond 429 [(''message'', ''Too many requests. Please try again later.'')]"
  by (auto simp: rateLimitCallback_def rejected_def split: reply.splits option.splits if_splits)

lemma rateLimiterCallback_rejected_shape:
  "rejected (fst (rateLimiterCallback r now ip db)) \<Longrightarrow>
     fst (rateLimiterCallback r now ip db) =
       Respond 429 [(''message'', ''You have exceeded the 10 requests in 60 seconds limit!'')]"
  by (auto simp: rateLimiterCallback_def rejected_def Let_def exceeded_message_text
      split: reply.splits option.splits if_splits)

text \<open>
  C4, as the spec states it, fails: a rejected request gets a 429 answer whose JSON object
  has no \<^verbatim>\<open>retryAfterSeconds\<close>. Here the client with a full quota is rejected and the
  answer carries no hint.
\<close>

theorem rejected_without_hint:
  "rejected (fst (rateLimitMiddleware Up 0 0 ''10.0.0.1'' full_counter)) \<and>
   retryAfterSeconds (fst (rateLimitMiddleware Up 0 0 ''10.0.0.1'' full_counter)) = None"
  by (simp add: rateLimitMiddleware_def rateLimitCallback_def client_get_def redis_get_def
      live_def full_counter_def requestLimits_def rejected_def retryAfterSeconds_def)

text \<open>
  C4, amended. No answer of either limiter carries \<^verbatim>\<open>retryAfterSeconds\<close>, whether the
  request is admitted, rejected or fails; a rejection is the status 429 with a JSON object
  whose only field is \<^verbatim>\<open>message\<close>, a fixed text.
\<close>

theorem no_retry_hint_anywhere:
  "retryAfterSeconds (fst (rateLimitCallback r now ip db)) = None \<and>
   retryAfterSeconds (fst (rateLimiterCallback r' now ip db')) = None \<and>
   (rejected (fst (rateLimitCallback r now ip db)) \<longrightarrow>
      fst (rateLimitCallback r now ip db) =
        Respond 429 [(''message'', ''Too many requests. Please try again later.'')]) \<and>
   (rejected (fst (rateLimiterCallback r' now ip db')) \<longrightarrow>
      fst (rateLimiterCallback r' now ip db') =
        Respond 429 [(''message'', ''You have exceeded the 10 requests in 60 seconds limit!'')])"
  using rateLimitCallback_no_hint rateLimiterCallback_no_hint
    rateLimitCallback_rejected_shape rateLimiterCallback_rejected_shape
  by blast

theorem no_retry_hint_anywhere_witness:
  "rejected (fst (rateLimitMiddleware Up 0 0 ''10.0.0.1'' full_counter)) \<and>
   fst (rateLimitMiddleware Up 0 0 ''10.0.0.1'' full_counter) =
     Respond 429 [(''message'', ''Too many requests. Please try again later.'')] \<and>
   rejected (fst (rateLimiterMiddleware Up 0 0 ''10.0.0.1'' full_list)) \<and>
   fst (rateLimiterMiddleware Up 0 0 ''10.0.0.1'' full_list) =
     Respond 429 [(''message'', ''You have exceeded the 10 requests in 60 seconds limit!'')]"
  using no_retry_hint_anywhere
      [of "client_get Up full_counter 0 ''10.0.0.1''" 0 "''10.0.0.1''" full_counter
          "client_get Up full_list 0 ''10.0.0.1''" full_list]
    full_counter_rejected full_list_rejected
  by (simp add: rateLimitMiddleware_def rateLimiterMiddleware_def)

section \<open>C6: errors of the store\<close>

text \<open>
  C6, as the spec states it, fails: with the server unreachable the callback throws the
  error it was given. The request is neither admitted nor rejected.
\<close>

theorem store_error_is_thrown:
  "fst (rateLimitMiddleware (Down ''ECONNREFUSED'') 0 0 ''10.0.0.1'' Map.empty)
     = Throw (RedisError ''ECONNREFUSED'') \<and>
   \<not> admitted (fst (rateLimitMiddleware (Down ''ECONNREFUSED'') 0 0 ''10.0.0.1'' Map.empty)) \<and>
   \<not> rejected (fst (rateLimitMiddleware (Down ''ECONNREFUSED'') 0 0 ''10.0.0.1'' Map.empty))"
  by (simp add: rateLimitMiddleware_def rateLimitCallback_def client_get_def admitted_def rejected_def)

text \<open>
  C6, amended. When \<^verbatim>\<open>get\<close> reports an error, both limiters throw that error and
  write nothing: there is no fallback decision, neither admit nor reject.
\<close>

theorem get_error_propagates:
  "rateLimitMiddleware (Down e) g now ip db = (Throw (RedisError e), db) \<and>
   rateLimiterMiddleware (Down e) g now ip db' = (Throw (RedisError e), db')"
  by (simp add: rateLimitMiddleware_def rateLimitCallback_def rateLimiterMiddleware_def
      rateLimiterCallback_def client_get_def)

section \<open>C10: what the list limiter writes\<close>

lemma within_newer: "e \<in> set (requestsWithinWindow data now) \<Longrightarrow> now - rateLimitWindow * 1000 < timeStamp e"
  by (simp add: requestsWithinWindow_def)

lemma within_subset: "e \<in> set (requestsWithinWindow data now) \<Longrightarrow> e \<in> set data"
  by (simp add: requestsWithinWindow_def)

lemma in_bumped_last:
  assumes "e \<in> set (butlast xs @ [y])"
  shows "e \<in> set xs \<or> e = y"
proof -
  have "set (butlast xs @ [y]) = set (butlast xs) \<union> {y}" by simp
  with assms have "e \<in> set (butlast xs) \<or> e = y" by blast
  then show ?thesis using in_set_butlastD [of e xs] by blast
qed

lemma bumped_last_timeStamps:
  assumes "xs \<noteq> []" "e \<in> set (butlast xs @ [(last xs)\<lparr>requestCount := n\<rparr>])"
  shows "\<exists>x \<in> set xs. timeStamp e = timeStamp x"
proof -
  from in_bumped_last [OF assms(2)]
  have "e \<in> set xs \<or> e = (last xs)\<lparr>requestCount := n\<rparr>" .
  then show ?thesis
  proof
    assume "e \<in> set xs"
    then show ?thesis by (rule bexI [rotated]) simp
  next
    assume "e = (last xs)\<lparr>requestCount := n\<rparr>"
    then have "timeStamp e = timeStamp (last xs)" by simp
    moreover have "last xs \<in> set xs" using assms(1) by simp
    ultimately show ?thesis by (rule bexI)
  qed
qed

lemma rateLimiterCallback_bump:
  assumes "requestsWithinWindow data now \<noteq> []"
    and "\<not> totalWindowRequests (requestsWithinWindow data now) \<ge> maxRequests"
    and "timeStamp (last (requestsWithinWindow data now)) > now - 1000"
  shows "rateLimiterCallback (Reply (Some data)) now ip db =
           (Next, redis_set_ex ip
              (butlast (requestsWithinWindow data now) @
                 [(last (requestsWithinWindow data now))
                    \<lparr>requestCount := requestCount (last (requestsWithinWindow data now)) + 1\<rparr>])
              rateLimitWindow now db)"
  using assms by (simp add: rateLimiterCallback_def Let_def)

lemma rateLimiterCallback_push:
  assumes "requestsWithinWindow data now \<noteq> []"
    and "\<not> totalWindowRequests (requestsWithinWindow data now) \<ge> maxRequests"
    and "\<not> timeStamp (last (requestsWithinWindow data now)) > now - 1000"
  shows "rateLimiterCallback (Reply (Some data)) now ip db =
           (Next, redis_set_ex ip
              (requestsWithinWindow data now @ [\<lparr>timeStamp = now, requestCount = 1\<rparr>])
              rateLimitWindow now db)"
  using assms by (simp add: rateLimiterCallback_def Let_def)

lemma rateLimiterCallback_fresh:
  "rateLimiterCallback (Reply None) now ip db =
     (Next, redis_set_ex ip [\<lparr>timeStamp = now, requestCount = 1\<rparr>] rateLimitWindow now db)"
  by (simp add: rateLimiterCallback_def)

lemma rateLimiterCallback_admitted_cases:
  assumes "admitted (fst (rateLimiterCallback r now ip db))"
  shows "r = Reply None \<or>
         (\<exists>data. r = Reply (Some data) \<and> requestsWithinWindow data now \<noteq> [] \<and>
            \<not> totalWindowRequests (requestsWithinWindow data now) \<ge> maxRequests)"
proof (cases r)
  case (Err x)
  with assms show ?thesis by (simp add: rateLimiterCallback_def admitted_def)
next
  case (Reply rec)
  show ?thesis
  proof (cases rec)
    case None
    with Reply show ?thesis by simp
  next
    case (Some data)
    with assms Reply show ?thesis
      by (simp add: rateLimiterCallback_def admitted_def Let_def split: if_splits)
  qed
qed

lemma rateLimiterCallback_write:
  assumes "admitted (fst (rateLimiterCallback r now ip db))"
  shows "\<exists>written. snd (rateLimiterCallback r now ip db) ip
            = Some (written, Some (now + rateLimitWindow * 1000)) \<and>
          (\<forall>e \<in> set written. timeStamp e = now \<or>
             (\<exists>data. r = Reply (Some data) \<and>
                (\<exists>x \<in> set (requestsWithinWindow data now). timeStamp e = timeStamp x)))"
proof -
  from rateLimiterCallback_admitted_cases [OF assms]
  consider "r = Reply None"
    | data where "r = Reply (Some data)" "requestsWithinWindow data now \<noteq> []"
        "\<not> totalWindowRequests (requestsWithinWindow data now) \<ge> maxRequests"
    by blast
  then show ?thesis
  proof cases
    case 1
    then show ?thesis by (simp add: rateLimiterCallback_fresh redis_set_ex_def)
  next
    case 2
    let ?w = "requestsWithinWindow data now"
    show ?thesis
    proof (cases "timeStamp (last ?w) > now - 1000")
      case True
      let ?written = "butlast ?w @ [(last ?w)\<lparr>requestCount := requestCount (last ?w) + 1\<rparr>]"
      have "snd (rateLimiterCallback r now ip db) ip
              = Some (?written, Some (now + rateLimitWindow * 1000))"
        using rateLimiterCallback_bump [OF 2(2) 2(3) True] 2(1) by (simp add: redis_set_ex_def)
      moreover have "\<forall>e \<in> set ?written. \<exists>x \<in> set ?w. timeStamp e = timeStamp x"
        using bumped_last_timeStamps [OF 2(2)] by blast
      ultimately show ?thesis using 2(1) by blast
    next
      case False
      let ?written = "?w @ [\<lparr>timeStamp = now, requestCount = 1\<rparr>]"
      have "snd (rateLimiterCallback r now ip db) ip
              = Some (?written, Some (now + rateLimitWindow * 1000))"
        using rateLimiterCallback_push [OF 2(2) 2(3) False] 2(1) by (simp add: redis_set_ex_def)
      moreover have "\<forall>e \<in> set ?written. timeStamp e = now \<or> (\<exists>x \<in> set ?w. timeStamp e = timeStamp x)"
        by auto
      ultimately show ?thesis using 2(1) by blast
    qed
  qed
qed

lemma rateLimiterCallback_not_admitted:
  "\<not> admitted (fst (rateLimiterCallback r now ip db)) \<Longrightarrow> snd (rateLimiterCallback r now ip db) = db"
  by (auto simp: rateLimiterCallback_def admitted_def Let_def split: reply.splits option.splits if_splits)

text \<open>
  C10. The list limiter writes exactly when it admits. The record it writes then holds only
  entries whose \<^verbatim>\<open>timeStamp\<close> is later than the request instant minus
  \<^verbatim>\<open>rateLimitWindow\<close> seconds; when no entry read lies in the future, none written does.
\<close>

theorem written_entries_within_window:
  "(admitted (fst (rateLimiterCallback r now ip db)) \<longrightarrow>
      (\<exists>written. snd (rateLimiterCallback r now ip db) ip
           = Some (written, Some (now + rateLimitWindow * 1000)) \<and>
         (\<forall>e \<in> set written. now - rateLimitWindow * 1000 < timeStamp e) \<and>
         ((\<forall>data. r = Reply (Some data) \<longrightarrow> (\<forall>x \<in> set data. timeStamp x \<le> now)) \<longrightarrow>
            (\<forall>e \<in> set written. timeStamp e \<le> now)))) \<and>
   (\<not> admitted (fst (rateLimiterCallback r now ip db)) \<longrightarrow>
      snd (rateLimiterCallback r now ip db) = db)"
proof (intro conjI impI)
  assume adm: "admitted (fst (rateLimiterCallback r now ip db))"
  from rateLimiterCallback_write [OF adm] obtain written where both:
    "snd (rateLimiterCallback r now ip db) ip
        = Some (written, Some (now + rateLimitWindow * 1000)) \<and>
     (\<forall>e \<in> set written. timeStamp e = now \<or>
        (\<exists>data. r = Reply (Some data) \<and>
           (\<exists>x \<in> set (requestsWithinWindow data now). timeStamp e = timeStamp x)))" ..
  from both have w: "snd (rateLimiterCallback r now ip db) ip
        = Some (written, Some (now + rateLimitWindow * 1000))" ..
  from both have src: "\<forall>e \<in> set written. timeStamp e = now \<or>
        (\<exists>data. r = Reply (Some data) \<and>
           (\<exists>x \<in> set (requestsWithinWindow data now). timeStamp e = timeStamp x))" ..
  have lower: "\<forall>e \<in> set written. now - rateLimitWindow * 1000 < timeStamp e"
  proof
    fix e assume e: "e \<in> set written"
    from src e have "timeStamp e = now \<or>
        (\<exists>data. r = Reply (Some data) \<and>
           (\<exists>x \<in> set (requestsWithinWindow data now). timeStamp e = timeStamp x))"
      by (rule bspec)
    then show "now - rateLimitWindow * 1000 < timeStamp e"
    proof (elim disjE exE conjE bexE)
      assume "timeStamp e = now"
      then show ?thesis by (simp add: rateLimitWindow_def)
    next
      fix data x
      assume "x \<in> set (requestsWithinWindow data now)" "timeStamp e = timeStamp x"
      then show ?thesis using within_newer [of x data now] by simp
    qed
  qed
  have upper: "(\<forall>data. r = Reply (Some data) \<longrightarrow> (\<forall>x \<in> set data. timeStamp x \<le> now)) \<longrightarrow>
            (\<forall>e \<in> set written. timeStamp e \<le> now)"
  proof (intro impI ballI)
    fix e
    assume old: "\<forall>data. r = Reply (Some data) \<longrightarrow> (\<forall>x \<in> set data. timeStamp x \<le> now)"
      and e: "e \<in> set written"
    from src e have "timeStamp e = now \<or>
        (\<exists>data. r = Reply (Some data) \<and>
           (\<exists>x \<in> set (requestsWithinWindow data now). timeStamp e = timeStamp x))"
      by (rule bspec)
    then show "timeStamp e \<le> now"
    proof (elim disjE exE conjE bexE)
      assume "timeStamp e = now"
      then show ?thesis by simp
    next
      fix data x
      assume r: "r = Reply (Some data)" and x: "x \<in> set (requestsWithinWindow data now)"
        and eq: "timeStamp e = timeStamp x"
      from old r have "\<forall>x \<in> set data. timeStamp x \<le> now" by simp
      moreover from x have "x \<in> set data" by (rule within_subset)
      ultimately have "timeStamp x \<le> now" by (rule bspec)
      with eq show ?thesis by simp
    qed
  qed
  from w lower upper
  have "snd (rateLimiterCallback r now ip db) ip
           = Some (written, Some (now + rateLimitWindow * 1000)) \<and>
         (\<forall>e \<in> set written. now - rateLimitWindow * 1000 < timeStamp e) \<and>
         ((\<forall>data. r = Reply (Some data) \<longrightarrow> (\<forall>x \<in> set data. timeStamp x \<le> now)) \<longrightarrow>
            (\<forall>e \<in> set written. timeStamp e \<le> now))"
    by (intro conjI)
  then show "\<exists>written. snd (rateLimiterCallback r now ip db) ip
           = Some (written, Some (now + rateLimitWindow * 1000)) \<and>
         (\<forall>e \<in> set written. now - rateLimitWindow * 1000 < timeStamp e) \<and>
         ((\<forall>data. r = Reply (Some data) \<longrightarrow> (\<forall>x \<in> set data. timeStamp x \<le> now)) \<longrightarrow>
            (\<forall>e \<in> set written. timeStamp e \<le> now))"
    by (rule exI)
next
  assume "\<not> admitted (fst (rateLimiterCallback r now ip db))"
  then show "snd (rateLimiterCallback r now ip db) = db"
    by (rule rateLimiterCallback_not_admitted)
qed

lemma old_list_step:
  "rateLimiterCallback (Reply (Some [\<lparr>timeStamp = 0, requestCount = 3\<rparr>, \<lparr>timeStamp = 40000, requestCount = 2\<rparr>])) 70000 ''10.0.0.1'' old_list
    = (Next, [''10.0.0.1'' \<mapsto> ([\<lparr>timeStamp = 40000, requestCount = 2\<rparr>, \<lparr>timeStamp = 70000, requestCount = 1\<rparr>], Some 130000)])"
  by (simp add: rateLimiterCallback_def requestsWithinWindow_def totalWindowRequests_def
        rateLimitWindow_def maxRequests_def redis_set_ex_def old_list_def Let_def)


theorem written_entries_within_window_witness:
  "admitted (fst (rateLimiterMiddleware Up 70000 70000 ''10.0.0.1'' old_list)) \<and>
   list_all (\<lambda>x. timeStamp x \<le> 70000)
     [\<lparr>timeStamp = 0, requestCount = 3\<rparr>, \<lparr>timeStamp = 40000, requestCount = 2\<rparr>] \<and>
   snd (rateLimiterMiddleware Up 70000 70000 ''10.0.0.1'' old_list) ''10.0.0.1''
     = Some ([\<lparr>timeStamp = 40000, requestCount = 2\<rparr>, \<lparr>timeStamp = 70000, requestCount = 1\<rparr>],
             Some 130000) \<and>
   list_all (\<lambda>e. 70000 - rateLimitWindow * 1000 < timeStamp e \<and> timeStamp e \<le> 70000)
     [\<lparr>timeStamp = 40000, requestCount = 2\<rparr>, \<lparr>timeStamp = 70000, requestCount = 1\<rparr>]"
proof -
  have g: "client_get Up old_list 70000 ''10.0.0.1''
      = Reply (Some [\<lparr>timeStamp = 0, requestCount = 3\<rparr>, \<lparr>timeStamp = 40000, requestCount = 2\<rparr>])"
    by (simp add: client_get_def redis_get_def old_list_def live_def)
  show ?thesis
    using written_entries_within_window
      [of "Reply (Some [\<lparr>timeStamp = 0, requestCount = 3\<rparr>, \<lparr>timeStamp = 40000, requestCount = 2\<rparr>])"
          70000 "''10.0.0.1''" old_list]
    by (simp add: rateLimiterMiddleware_def g old_list_step admitted_def rateLimitWindow_def)
qed

section \<open>Steps of the counter limiter\<close>


lemma rateLimitMiddleware_absent:
  "redis_get db g ip = None \<Longrightarrow>
     rateLimitMiddleware Up g now ip db = (Next, db(ip \<mapsto> (1, Some (now + ttl * 1000))))"
  by (simp add: rateLimitMiddleware_def rateLimitCallback_def client_get_def redis_set_ex_def)

lemma rateLimitMiddleware_below:
  "db ip = Some (v, ex) \<Longrightarrow> live ex g \<Longrightarrow> live ex now \<Longrightarrow> v < requestLimits \<Longrightarrow>
     rateLimitMiddleware Up g now ip db = (Next, db(ip \<mapsto> (v + 1, ex)))"
  by (simp add: rateLimitMiddleware_def rateLimitCallback_def client_get_def redis_get_def
      redis_incr_def)

lemma rateLimitMiddleware_late:
  "db ip = Some (v, ex) \<Longrightarrow> live ex g \<Longrightarrow> \<not> live ex now \<Longrightarrow> v < requestLimits \<Longrightarrow>
     rateLimitMiddleware Up g now ip db = (Next, db(ip \<mapsto> (1, None)))"
  by (simp add: rateLimitMiddleware_def rateLimitCallback_def client_get_def redis_get_def
      redis_incr_def)

lemma rateLimitMiddleware_full:
  "db ip = Some (v, ex) \<Longrightarrow> live ex g \<Longrightarrow> requestLimits \<le> v \<Longrightarrow>
     rateLimitMiddleware Up g now ip db = (too_many, db)"
  by (simp add: rateLimitMiddleware_def rateLimitCallback_def client_get_def redis_get_def
      too_many_def)


lemma redis_get_later:
  "redis_get db a ip = None \<Longrightarrow> a \<le> t \<Longrightarrow> redis_get db t ip = None"
  by (auto simp: redis_get_def live_def split: option.splits if_splits)

lemma run_Cons:
  "run mw (Request c g now ip # rest) db =
     (fst (mw c g now ip db) # fst (run mw rest (snd (mw c g now ip db))),
      snd (run mw rest (snd (mw c g now ip db))))"
  by (simp split: prod.splits)

lemma run_append:
  "run mw (xs @ ys) db =
     (fst (run mw xs db) @ fst (run mw ys (snd (run mw xs db))),
      snd (run mw ys (snd (run mw xs db))))"
proof (induction xs arbitrary: db)
  case Nil
  then show ?case by simp
next
  case (Cons r xs)
  obtain c g t k where r: "r = Request c g t k" by (cases r)
  show ?case by (simp add: r run_Cons Cons.IH del: run.simps)
qed

section \<open>The quota of the counter limiter within one window\<close>



section \<open>Steps of the list limiter\<close>


lemma rateLimiterMiddleware_absent:
  "redis_get db g ip = None \<Longrightarrow>
     rateLimiterMiddleware Up g now ip db =
       (Next, db(ip \<mapsto> ([\<lparr>timeStamp = now, requestCount = 1\<rparr>],
                        Some (now + rateLimitWindow * 1000))))"
  by (simp add: rateLimiterMiddleware_def rateLimiterCallback_fresh client_get_def
      redis_set_ex_def)

lemma rateLimiterMiddleware_frame:
  "k \<noteq> ip \<Longrightarrow> snd (rateLimiterMiddleware c g now k db) ip = db ip"
  by (cases c)
     (simp_all add: rateLimiterMiddleware_def rateLimiterCallback_def client_get_def
        redis_set_ex_def Let_def split: option.splits)

lemma foldl_requestCount:
  "foldl (\<lambda>accumulator e. accumulator + requestCount e) a xs
     = a + sum_list (map requestCount xs)"
  by (induction xs arbitrary: a) simp_all

lemma totalWindowRequests_sum:
  "totalWindowRequests xs = sum_list (map requestCount xs)"
  by (simp add: totalWindowRequests_def foldl_requestCount)




lemma rateLimiterCallback_full:
  "maxRequests \<le> totalWindowRequests (requestsWithinWindow data now) \<Longrightarrow>
     rateLimiterCallback (Reply (Some data)) now ip db = (exceeded, db)"
  by (simp add: rateLimiterCallback_def Let_def exceeded_def exceeded_message_text)



section \<open>The quota of the list limiter within one window\<close>



section \<open>A burst of requests of one client\<close>

lemma nat_quota_Suc: "v < q \<Longrightarrow> nat (q - v) = Suc (nat (q - (v + 1)))" for v q :: int
  by linarith

lemma nat_quota_zero: "\<not> v < q \<Longrightarrow> nat (q - v) = 0" for v q :: int
  by simp

lemma counter_live_outcomes:
  assumes "db ip = Some (v, Some e)"
    and "\<forall>r \<in> set reqs. up_for ip r \<and> asked r \<le> e \<and> answered r \<le> e"
  shows "fst (run rateLimitMiddleware reqs db) =
           replicate (min (length reqs) (nat (requestLimits - v))) Next @
           replicate (length reqs - nat (requestLimits - v)) too_many \<and>
         (\<exists>v'. snd (run rateLimitMiddleware reqs db) ip = Some (v', Some e))"
  using assms
proof (induction reqs arbitrary: db v)
  case Nil
  then show ?case by simp
next
  case (Cons r reqs)
  obtain c g t k where r: "r = Request c g t k" by (cases r)
  from Cons.prems(2) r have up: "c = Up" "k = ip" and le: "g \<le> e" "t \<le> e"
    by (simp_all add: up_for_def)
  then have live: "live (Some e) g" "live (Some e) t" by (simp_all add: live_def)
  have rest: "\<forall>r \<in> set reqs. up_for ip r \<and> asked r \<le> e \<and> answered r \<le> e"
    using Cons.prems(2) by simp
  show ?case
  proof (cases "v < requestLimits")
    case True
    define db1 where "db1 = db(ip \<mapsto> (v + 1, Some e))"
    have step: "rateLimitMiddleware c g t k db = (Next, db1)"
      using rateLimitMiddleware_below [of db ip v "Some e" g t] Cons.prems(1) live True up
      by (simp add: db1_def)
    have "db1 ip = Some (v + 1, Some e)" by (simp add: db1_def)
    from Cons.IH [of db1 "v + 1", OF this rest]
    have ih: "fst (run rateLimitMiddleware reqs db1) =
           replicate (min (length reqs) (nat (requestLimits - (v + 1)))) Next @
           replicate (length reqs - nat (requestLimits - (v + 1))) too_many"
      and st: "\<exists>v'. snd (run rateLimitMiddleware reqs db1) ip = Some (v', Some e)"
      by simp_all
    from ih st step show ?thesis
      by (simp add: r run_Cons nat_quota_Suc [OF True] del: run.simps)
  next
    case False
    then have step: "rateLimitMiddleware c g t k db = (too_many, db)"
      using rateLimitMiddleware_full [of db ip v "Some e" g t] Cons.prems(1) live up by simp
    from Cons.IH [of db v, OF Cons.prems(1) rest]
    have ih: "fst (run rateLimitMiddleware reqs db) =
           replicate (min (length reqs) (nat (requestLimits - v))) Next @
           replicate (length reqs - nat (requestLimits - v)) too_many"
      and st: "\<exists>v'. snd (run rateLimitMiddleware reqs db) ip = Some (v', Some e)"
      by simp_all
    from ih st step show ?thesis
      by (simp add: r run_Cons nat_quota_zero [OF False] del: run.simps)
  qed
qed

lemma counter_fresh_burst:
  assumes "redis_get db a ip = None"
    and "\<forall>r \<in> set reqs. up_for ip r \<and> in_window a 1 r"
  shows "fst (run rateLimitMiddleware reqs db) =
           replicate (min (length reqs) (nat requestLimits)) Next @
           replicate (length reqs - nat requestLimits) too_many \<and>
         (reqs \<noteq> [] \<longrightarrow>
            (\<exists>v e. snd (run rateLimitMiddleware reqs db) ip = Some (v, Some e) \<and>
               e < a + 1000 + ttl * 1000))"
proof (cases reqs)
  case Nil
  then show ?thesis by simp
next
  case (Cons r rest)
  obtain c g t k where r: "r = Request c g t k" by (cases r)
  from assms(2) Cons r have up: "c = Up" "k = ip" and t: "a \<le> g" "a \<le> t" "t < a + 1000"
    by (simp_all add: up_for_def in_window_def)
  define e where "e = t + ttl * 1000"
  define db1 where "db1 = db(ip \<mapsto> (1, Some e))"
  from redis_get_later [OF assms(1) t(1)]
  have step: "rateLimitMiddleware c g t k db = (Next, db1)"
    using up by (simp add: rateLimitMiddleware_absent db1_def e_def)
  have rec: "db1 ip = Some (1, Some e)" by (simp add: db1_def)
  have "\<forall>r \<in> set rest. up_for ip r \<and> asked r \<le> e \<and> answered r \<le> e"
  proof
    fix x assume "x \<in> set rest"
    with assms(2) Cons have "up_for ip x" "in_window a 1 x" by simp_all
    with t(2) show "up_for ip x \<and> asked x \<le> e \<and> answered x \<le> e"
      by (simp add: in_window_def e_def ttl_def)
  qed
  from counter_live_outcomes [of db1 ip 1 e rest, OF rec this]
  have outs: "fst (run rateLimitMiddleware rest db1) =
           replicate (min (length rest) (nat (requestLimits - 1))) Next @
           replicate (length rest - nat (requestLimits - 1)) too_many"
    and st: "\<exists>v'. snd (run rateLimitMiddleware rest db1) ip = Some (v', Some e)"
    by simp_all
  have e: "e < a + 1000 + ttl * 1000" using t(3) by (simp add: e_def)
  from st obtain v' where "snd (run rateLimitMiddleware rest db1) ip = Some (v', Some e)" ..
  with e have "\<exists>v e. snd (run rateLimitMiddleware rest db1) ip = Some (v, Some e) \<and>
      e < a + 1000 + ttl * 1000"
    by (intro exI conjI)
  with outs step show ?thesis
    by (simp add: Cons r run_Cons requestLimits_def del: run.simps)
qed

lemma list_live_outcomes:
  assumes "db ip = Some ([\<lparr>timeStamp = t0, requestCount = v\<rparr>], Some e)"
    and "a \<le> t0"
    and "a + rateLimitWindow * 1000 \<le> e"
    and "e < a + 1000 + rateLimitWindow * 1000"
    and "\<forall>r \<in> set reqs. up_for ip r \<and> in_window a 1 r"
  shows "fst (run rateLimiterMiddleware reqs db) =
           replicate (min (length reqs) (nat (maxRequests - v))) Next @
           replicate (length reqs - nat (maxRequests - v)) exceeded \<and>
         (\<exists>data e'. snd (run rateLimiterMiddleware reqs db) ip = Some (data, Some e') \<and>
            e' < a + 1000 + rateLimitWindow * 1000)"
  using assms
proof (induction reqs arbitrary: db v e)
  case Nil
  then show ?case by simp
next
  case (Cons r reqs)
  obtain c g t k where r: "r = Request c g t k" by (cases r)
  from Cons.prems(5) r have up: "c = Up" "k = ip"
    and t: "a \<le> g" "g < a + 1000" "a \<le> t" "t < a + 1000"
    by (simp_all add: up_for_def in_window_def)
  have rest: "\<forall>r \<in> set reqs. up_for ip r \<and> in_window a 1 r"
    using Cons.prems(5) by simp
  let ?data = "[\<lparr>timeStamp = t0, requestCount = v\<rparr>]"
  have "live (Some e) g"
    using t(2) Cons.prems(3) by (simp add: live_def rateLimitWindow_def)
  with Cons.prems(1) have get: "client_get Up db g ip = Reply (Some ?data)"
    by (simp add: client_get_def redis_get_def)
  have inside: "requestsWithinWindow ?data t = ?data"
    using t(4) Cons.prems(2) by (simp add: requestsWithinWindow_def rateLimitWindow_def)
  have total: "totalWindowRequests ?data = v"
    by (simp add: totalWindowRequests_def)
  have step: "rateLimiterMiddleware c g t k db = rateLimiterCallback (Reply (Some ?data)) t ip db"
    using get up by (simp add: rateLimiterMiddleware_def)
  show ?case
  proof (cases "v < maxRequests")
    case True
    define e1 where "e1 = t + rateLimitWindow * 1000"
    define db1 where "db1 = db(ip \<mapsto> ([\<lparr>timeStamp = t0, requestCount = v + 1\<rparr>], Some e1))"
    have recent: "timeStamp (last (requestsWithinWindow ?data t)) > t - 1000"
      using t(4) Cons.prems(2) by (simp add: inside)
    have "rateLimiterCallback (Reply (Some ?data)) t ip db = (Next, db1)"
      using rateLimiterCallback_bump [of ?data t ip db] recent True
      by (simp add: inside total redis_set_ex_def db1_def e1_def)
    with step have step1: "rateLimiterMiddleware c g t k db = (Next, db1)" by simp
    have rec: "db1 ip = Some ([\<lparr>timeStamp = t0, requestCount = v + 1\<rparr>], Some e1)"
      by (simp add: db1_def)
    have lo: "a + rateLimitWindow * 1000 \<le> e1" using t(3) by (simp add: e1_def)
    have hi: "e1 < a + 1000 + rateLimitWindow * 1000" using t(4) by (simp add: e1_def)
    from Cons.IH [of db1 "v + 1" e1, OF rec Cons.prems(2) lo hi rest]
    have ih: "fst (run rateLimiterMiddleware reqs db1) =
           replicate (min (length reqs) (nat (maxRequests - (v + 1)))) Next @
           replicate (length reqs - nat (maxRequests - (v + 1))) exceeded"
      and st: "\<exists>data e'. snd (run rateLimiterMiddleware reqs db1) ip = Some (data, Some e') \<and>
            e' < a + 1000 + rateLimitWindow * 1000"
      by simp_all
    from ih st step1 show ?thesis
      by (simp add: r run_Cons nat_quota_Suc [OF True] del: run.simps)
  next
    case False
    then have "rateLimiterCallback (Reply (Some ?data)) t ip db = (exceeded, db)"
      using rateLimiterCallback_full [of ?data t ip db] by (simp add: inside total)
    with step have step1: "rateLimiterMiddleware c g t k db = (exceeded, db)" by simp
    from Cons.IH [of db v e, OF Cons.prems(1) Cons.prems(2) Cons.prems(3) Cons.prems(4) rest]
    have ih: "fst (run rateLimiterMiddleware reqs db) =
           replicate (min (length reqs) (nat (maxRequests - v))) Next @
           replicate (length reqs - nat (maxRequests - v)) exceeded"
      and st: "\<exists>data e'. snd (run rateLimiterMiddleware reqs db) ip = Some (data, Some e') \<and>
            e' < a + 1000 + rateLimitWindow * 1000"
      by simp_all
    from ih st step1 show ?thesis
      by (simp add: r run_Cons nat_quota_zero [OF False] del: run.simps)
  qed
qed

lemma list_fresh_burst:
  assumes "redis_get db a ip = None"
    and "\<forall>r \<in> set reqs. up_for ip r \<and> in_window a 1 r"
  shows "fst (run rateLimiterMiddleware reqs db) =
           replicate (min (length reqs) (nat maxRequests)) Next @
           replicate (length reqs - nat maxRequests) exceeded \<and>
         (reqs \<noteq> [] \<longrightarrow>
            (\<exists>data e. snd (run rateLimiterMiddleware reqs db) ip = Some (data, Some e) \<and>
               e < a + 1000 + rateLimitWindow * 1000))"
proof (cases reqs)
  case Nil
  then show ?thesis by simp
next
  case (Cons r rest)
  obtain c g t k where r: "r = Request c g t k" by (cases r)
  from assms(2) Cons r have up: "c = Up" "k = ip" and t: "a \<le> g" "a \<le> t" "t < a + 1000"
    by (simp_all add: up_for_def in_window_def)
  define e where "e = t + rateLimitWindow * 1000"
  define db1 where "db1 = db(ip \<mapsto> ([\<lparr>timeStamp = t, requestCount = 1\<rparr>], Some e))"
  from redis_get_later [OF assms(1) t(1)]
  have step: "rateLimiterMiddleware c g t k db = (Next, db1)"
    using up by (simp add: rateLimiterMiddleware_absent db1_def e_def)
  have rec: "db1 ip = Some ([\<lparr>timeStamp = t, requestCount = 1\<rparr>], Some e)"
    by (simp add: db1_def)
  have lo: "a + rateLimitWindow * 1000 \<le> e" using t(2) by (simp add: e_def)
  have hi: "e < a + 1000 + rateLimitWindow * 1000" using t(3) by (simp add: e_def)
  have others: "\<forall>r \<in> set rest. up_for ip r \<and> in_window a 1 r"
    using assms(2) Cons by simp
  from list_live_outcomes [of db1 ip t 1 e a rest, OF rec t(2) lo hi others]
  have outs: "fst (run rateLimiterMiddleware rest db1) =
           replicate (min (length rest) (nat (maxRequests - 1))) Next @
           replicate (length rest - nat (maxRequests - 1)) exceeded"
    and st: "\<exists>data e'. snd (run rateLimiterMiddleware rest db1) ip = Some (data, Some e') \<and>
            e' < a + 1000 + rateLimitWindow * 1000"
    by simp_all
  from outs st step show ?thesis
    by (simp add: Cons r run_Cons maxRequests_def del: run.simps)
qed

section \<open>C1: the quota within one window\<close>




section \<open>C2: requests that overlap\<close>

lemma callbacks_Cons:
  "callbacks cb (r # rs) now ip db =
     (fst (cb r now ip db) # fst (callbacks cb rs now ip (snd (cb r now ip db))),
      snd (callbacks cb rs now ip (snd (cb r now ip db))))"
  by (simp split: prod.splits)

lemma callbacks_null_replies:
  "fst (callbacks rateLimitCallback (replicate n (Reply None)) now ip db) = replicate n Next"
  by (induction n arbitrary: db)
     (simp_all add: callbacks_Cons rateLimitCallback_def del: callbacks.simps(2))

lemma callbacks_null_replies_list:
  "fst (callbacks rateLimiterCallback (replicate n (Reply None)) now ip db) = replicate n Next"
  by (induction n arbitrary: db)
     (simp_all add: callbacks_Cons rateLimiterCallback_fresh del: callbacks.simps(2))

lemma overlapped_fresh_all_admitted:
  "redis_get db now ip = None \<Longrightarrow>
     fst (overlapped rateLimitCallback n now ip db) = replicate n Next"
  by (simp add: overlapped_def client_get_def callbacks_null_replies)

lemma overlapped_fresh_all_admitted_list:
  "redis_get db now ip = None \<Longrightarrow>
     fst (overlapped rateLimiterCallback n now ip db) = replicate n Next"
  by (simp add: overlapped_def client_get_def callbacks_null_replies_list)

text \<open>
  C2. The limiters do not do what the claim says. The write is a plain \<^verbatim>\<open>SET\<close> or
  \<^verbatim>\<open>INCR\<close> sent from the callback, not a compare-and-swap on the value read. Eleven
  requests of a new client whose \<^verbatim>\<open>GET\<close>s are all answered before the first callback
  runs each read \<^verbatim>\<open>null\<close>: all eleven are admitted, one more than \<open>min N 11 = 10\<close>, in
  both limiters, and the store ends with a count of 1. (By the two lemmas above, any number
  of such requests is admitted.)
\<close>

theorem overlapping_requests_all_admitted:
  "fst (overlapped rateLimitCallback 11 0 ''10.0.0.1'' Map.empty) = replicate 11 Next \<and>
   snd (overlapped rateLimitCallback 11 0 ''10.0.0.1'' Map.empty) ''10.0.0.1''
     = Some (1, Some 60000) \<and>
   fst (overlapped rateLimiterCallback 11 0 ''10.0.0.1'' Map.empty) = replicate 11 Next \<and>
   snd (overlapped rateLimiterCallback 11 0 ''10.0.0.1'' Map.empty) ''10.0.0.1''
     = Some ([\<lparr>timeStamp = 0, requestCount = 1\<rparr>], Some 60000) \<and>
   min (nat requestLimits) 11 = 10"
  by code_simp

section \<open>C3: the scenario of the specification\<close>

text \<open>
  C3, as the spec states it, fails twice. The eleventh request is rejected, but its answer
  has no \<^verbatim>\<open>retryAfterSeconds\<close>, in either limiter. And a request at 60 seconds is not
  always admitted: after eleven requests in the second half of second 0, the request at
  60.2 seconds is rejected by both limiters, whose records are still readable.
\<close>

theorem eleventh_has_no_hint:
  "rejected (fst (run rateLimitMiddleware early Map.empty) ! 10) \<and>
   retryAfterSeconds (fst (run rateLimitMiddleware early Map.empty) ! 10) = None \<and>
   rejected (fst (run rateLimiterMiddleware early Map.empty) ! 10) \<and>
   retryAfterSeconds (fst (run rateLimiterMiddleware early Map.empty) ! 10) = None \<and>
   fst (run rateLimitMiddleware (early @ [Request Up 60200 60201 ''10.0.0.1'']) Map.empty) ! 11
     = too_many \<and>
   fst (run rateLimiterMiddleware (early @ [Request Up 60200 60201 ''10.0.0.1'']) Map.empty) ! 11
     = exceeded"
  by code_simp

lemma eleven_replicate:
  "replicate (min 11 (nat requestLimits)) Next @ replicate (11 - nat requestLimits) x
     = replicate 10 Next @ [x]"
  "replicate (min 11 (nat maxRequests)) Next @ replicate (11 - nat maxRequests) x
     = replicate 10 Next @ [x]"
  by (simp_all add: requestLimits_def maxRequests_def)

text \<open>
  C3, amended. For a client with no readable record, take eleven requests handled one
  after the other whose reads and writes all fall in second 0. The first ten are admitted
  and the eleventh is rejected with status 429 and a message only. A request whose
  \<^verbatim>\<open>GET\<close> is answered at 61 seconds or later is admitted.
\<close>

theorem ten_then_reject_then_admit:
  "redis_get db 0 ip = None \<and> redis_get db' 0 ip = None \<and> length reqs = 11 \<and>
   (\<forall>r \<in> set reqs. up_for ip r \<and> in_window 0 1 r) \<and> 61000 \<le> g \<longrightarrow>
     fst (run rateLimitMiddleware (reqs @ [Request Up g now ip]) db)
       = replicate 10 Next @ [too_many, Next] \<and>
     fst (run rateLimiterMiddleware (reqs @ [Request Up g now ip]) db')
       = replicate 10 Next @ [exceeded, Next]"
proof (intro impI, elim conjE)
  assume fresh: "redis_get db 0 ip = None" and fresh': "redis_get db' 0 ip = None"
    and len: "length reqs = 11"
    and reqs: "\<forall>r \<in> set reqs. up_for ip r \<and> in_window 0 1 r"
    and g: "61000 \<le> g"
  from len have ne: "reqs \<noteq> []" by auto
  have counter: "fst (run rateLimitMiddleware (reqs @ [Request Up g now ip]) db)
       = replicate 10 Next @ [too_many, Next]"
  proof -
    from counter_fresh_burst [OF fresh reqs] ne
    have outs: "fst (run rateLimitMiddleware reqs db) = replicate 10 Next @ [too_many]"
      and "\<exists>v e. snd (run rateLimitMiddleware reqs db) ip = Some (v, Some e) \<and>
               e < 0 + 1000 + ttl * 1000"
      by (simp_all add: len eleven_replicate)
    then obtain v e where "snd (run rateLimitMiddleware reqs db) ip = Some (v, Some e)"
      and "e < 0 + 1000 + ttl * 1000"
      by (elim exE conjE)
    with g have "redis_get (snd (run rateLimitMiddleware reqs db)) g ip = None"
      by (simp add: redis_get_def live_def ttl_def)
    then have "fst (rateLimitMiddleware Up g now ip (snd (run rateLimitMiddleware reqs db))) = Next"
      by (simp add: rateLimitMiddleware_absent)
    with outs show ?thesis by (simp add: run_append run_Cons del: run.simps(2))
  qed
  have list: "fst (run rateLimiterMiddleware (reqs @ [Request Up g now ip]) db')
       = replicate 10 Next @ [exceeded, Next]"
  proof -
    from list_fresh_burst [OF fresh' reqs] ne
    have outs: "fst (run rateLimiterMiddleware reqs db') = replicate 10 Next @ [exceeded]"
      and "\<exists>data e. snd (run rateLimiterMiddleware reqs db') ip = Some (data, Some e) \<and>
               e < 0 + 1000 + rateLimitWindow * 1000"
      by (simp_all add: len eleven_replicate)
    then obtain data e where "snd (run rateLimiterMiddleware reqs db') ip = Some (data, Some e)"
      and "e < 0 + 1000 + rateLimitWindow * 1000"
      by (elim exE conjE)
    with g have "redis_get (snd (run rateLimiterMiddleware reqs db')) g ip = None"
      by (simp add: redis_get_def live_def rateLimitWindow_def)
    then have "fst (rateLimiterMiddleware Up g now ip (snd (run rateLimiterMiddleware reqs db'))) = Next"
      by (simp add: rateLimiterMiddleware_absent)
    with outs show ?thesis by (simp add: run_append run_Cons del: run.simps(2))
  qed
  from counter list
  show "fst (run rateLimitMiddleware (reqs @ [Request Up g now ip]) db)
       = replicate 10 Next @ [too_many, Next] \<and>
     fst (run rateLimiterMiddleware (reqs @ [Request Up g now ip]) db')
       = replicate 10 Next @ [exceeded, Next]" ..
qed

theorem ten_then_reject_then_admit_witness:
  "redis_get (Map.empty :: int redis) 0 ''10.0.0.1'' = None \<and>
   redis_get (Map.empty :: entry list redis) 0 ''10.0.0.1'' = None \<and>
   length early = 11 \<and> list_all (up_for ''10.0.0.1'') early \<and> list_all (in_window 0 1) early \<and>
   (61000 :: int) \<le> 61000 \<and>
   fst (run rateLimitMiddleware (early @ [Request Up 61000 61002 ''10.0.0.1'']) Map.empty)
     = replicate 10 Next @ [too_many, Next] \<and>
   fst (run rateLimiterMiddleware (early @ [Request Up 61000 61002 ''10.0.0.1'']) Map.empty)
     = replicate 10 Next @ [exceeded, Next]"
proof -
  have a: "redis_get (Map.empty :: int redis) 0 ''10.0.0.1'' = None"
    and b: "redis_get (Map.empty :: entry list redis) 0 ''10.0.0.1'' = None"
    by (simp_all add: redis_get_def)
  have c: "length early = 11" by code_simp
  have d: "list_all (up_for ''10.0.0.1'') early" by code_simp
  have e: "list_all (in_window 0 1) early" by code_simp
  from d e have f: "\<forall>r \<in> set early. up_for ''10.0.0.1'' r \<and> in_window 0 1 r"
    by (simp add: list_all_iff)
  show ?thesis
    using ten_then_reject_then_admit
        [of Map.empty "''10.0.0.1''" Map.empty early 61000 61002] a b c d e f
    by (simp del: run.simps)
qed

section \<open>C7: expiry of the records\<close>

text \<open>
  C7, as the spec states it, fails: in the counter limiter an admitted request on an
  existing record is written with \<^verbatim>\<open>INCR\<close>, which leaves the expiry where the first
  \<^verbatim>\<open>SET\<close> put it. The record written at instant 30001 keeps the expiry 60000 and is
  gone at 61000, half a window after that write.
\<close>

theorem incr_keeps_expiry:
  "rateLimitMiddleware Up 30000 30001 ''10.0.0.1'' one_counter
     = (Next, [''10.0.0.1'' \<mapsto> (2, Some 60000)]) \<and>
   redis_get (snd (rateLimitMiddleware Up 30000 30001 ''10.0.0.1'' one_counter)) 61000 ''10.0.0.1''
     = None"
  by (simp add: rateLimitMiddleware_def rateLimitCallback_def client_get_def redis_get_def
      live_def one_counter_def requestLimits_def redis_incr_def)

lemma rateLimiterCallback_admitted_expiry:
  "admitted (fst (rateLimiterCallback r now ip db)) \<Longrightarrow>
     \<exists>data. snd (rateLimiterCallback r now ip db) ip = Some (data, Some (now + rateLimitWindow * 1000))"
  by (auto simp: rateLimiterCallback_def admitted_def Let_def redis_set_ex_def
      split: reply.splits option.splits if_splits)

lemma rateLimitCallback_incr_live:
  "n < requestLimits \<Longrightarrow> db ip = Some (v, ex) \<Longrightarrow> live ex now \<Longrightarrow>
     rateLimitCallback (Reply (Some n)) now ip db = (Next, db(ip \<mapsto> (v + 1, ex)))"
  by (simp add: rateLimitCallback_def redis_incr_def)

lemma rateLimitCallback_incr_gone:
  "n < requestLimits \<Longrightarrow> redis_get db now ip = None \<Longrightarrow>
     rateLimitCallback (Reply (Some n)) now ip db = (Next, db(ip \<mapsto> (1, None)))"
  by (auto simp: rateLimitCallback_def redis_incr_def redis_get_def split: option.splits if_splits)

text \<open>
  C7, amended, on the callbacks, for every reply and every store. In the list limiter every
  admitted request writes its record with an expiry one window (60 seconds, not two
  windows) after the write. In the counter limiter the callback of a request that read no
  record sets an expiry 60 seconds after the write. The callback of an admitted request
  that read a record sends \<^verbatim>\<open>INCR\<close>, which carries no expiry: on a record still readable
  at the write it adds one and leaves the expiry unchanged; on a record no longer readable
  at the write it stores 1 with no expiry.
\<close>

theorem expiry_of_writes:
  "(admitted (fst (rateLimiterCallback r now ip db')) \<longrightarrow>
      (\<exists>data. snd (rateLimiterCallback r now ip db') ip = Some (data, Some (now + 60 * 1000)))) \<and>
   rateLimitCallback (Reply None) now ip db = (Next, db(ip \<mapsto> (1, Some (now + 60 * 1000)))) \<and>
   (n < requestLimits \<and> db ip = Some (v, ex) \<and> live ex now \<longrightarrow>
      rateLimitCallback (Reply (Some n)) now ip db = (Next, db(ip \<mapsto> (v + 1, ex)))) \<and>
   (n < requestLimits \<and> redis_get db now ip = None \<longrightarrow>
      rateLimitCallback (Reply (Some n)) now ip db = (Next, db(ip \<mapsto> (1, None))))"
  using rateLimiterCallback_admitted_expiry [of r now ip db']
    rateLimitCallback_incr_live [of n db ip v ex now]
    rateLimitCallback_incr_gone [of n db now ip]
  by (simp add: rateLimitWindow_def rateLimitCallback_def redis_set_ex_def ttl_def)

theorem expiry_of_writes_witness:
  "admitted (fst (rateLimiterCallback (Reply None) 0 ''10.0.0.1'' Map.empty)) \<and>
   (\<exists>data. snd (rateLimiterCallback (Reply None) 0 ''10.0.0.1'' Map.empty) ''10.0.0.1''
      = Some (data, Some 60000)) \<and>
   (1 :: int) < requestLimits \<and> one_counter ''10.0.0.1'' = Some (1, Some 60000) \<and>
   live (Some 60000) 30001 \<and>
   rateLimitCallback (Reply (Some 1)) 30001 ''10.0.0.1'' one_counter
     = (Next, one_counter(''10.0.0.1'' \<mapsto> (2, Some 60000))) \<and>
   redis_get one_counter 60003 ''10.0.0.1'' = None \<and>
   rateLimitCallback (Reply (Some 1)) 60003 ''10.0.0.1'' one_counter
     = (Next, one_counter(''10.0.0.1'' \<mapsto> (1, None)))"
proof -
  have a: "admitted (fst (rateLimiterCallback (Reply None) 0 ''10.0.0.1'' Map.empty))"
    by (simp add: rateLimiterCallback_fresh admitted_def)
  have b: "(1 :: int) < requestLimits" by (simp add: requestLimits_def)
  have c: "one_counter ''10.0.0.1'' = Some (1, Some 60000)" by (simp add: one_counter_def)
  have d: "live (Some 60000) 30001" by (simp add: live_def)
  have e: "redis_get one_counter 60003 ''10.0.0.1'' = None"
    by (simp add: redis_get_def one_counter_def live_def)
  show ?thesis
    using expiry_of_writes [of "Reply None" 0 "''10.0.0.1''" Map.empty Map.empty]
      expiry_of_writes [of "Reply None" 30001 "''10.0.0.1''" Map.empty one_counter 1 1 "Some 60000"]
      expiry_of_writes [of "Reply None" 60003 "''10.0.0.1''" Map.empty one_counter 1]
      a b c d e
    by simp
qed

section \<open>C8: after a long silence\<close>

lemma lockout_store:
  "snd (run rateLimitMiddleware lockout Map.empty) ''10.0.0.1'' = Some (10, None)"
  by code_simp

text \<open>
  C8. The counter limiter does not do what the claim says. After the requests of
  \<open>lockout\<close>, all within the first 62 seconds, the record of the client is the count 10
  with no expiry: the \<^verbatim>\<open>INCR\<close> of the second request arrived after the record had
  expired and created it anew without an expiry. From then on a request of that client is
  rejected at every instant, however long the client has been silent, and the store stays
  as it is.
\<close>

theorem silent_client_still_rejected:
  "list_all (in_window 0 62) lockout \<and>
   snd (run rateLimitMiddleware lockout Map.empty) ''10.0.0.1'' = Some (10, None) \<and>
   rateLimitMiddleware Up g now ''10.0.0.1'' (snd (run rateLimitMiddleware lockout Map.empty))
     = (too_many, snd (run rateLimitMiddleware lockout Map.empty))"
proof -
  have "live None g" by (simp add: live_def)
  moreover have "requestLimits \<le> 10" by (simp add: requestLimits_def)
  ultimately have "rateLimitMiddleware Up g now ''10.0.0.1''
       (snd (run rateLimitMiddleware lockout Map.empty))
     = (too_many, snd (run rateLimitMiddleware lockout Map.empty))"
    using rateLimitMiddleware_full
      [of "snd (run rateLimitMiddleware lockout Map.empty)" "''10.0.0.1''" 10 None g now]
      lockout_store
    by simp
  moreover have "list_all (in_window 0 62) lockout" by code_simp
  ultimately show ?thesis using lockout_store by simp
qed

text \<open>
  The list limiter writes every record with \<^verbatim>\<open>SET ... EX\<close> and does what the claim says:
  from the empty store, after any history in which the client's callbacks all ran more
  than two windows before the \<^verbatim>\<open>GET\<close> of a request, that request is admitted and the
  record written counts it alone.
\<close>

lemma run_preserves:
  assumes step: "\<And>c g t k db. P db \<Longrightarrow> (k = ip \<longrightarrow> Q t) \<Longrightarrow> P (snd (mw c g t k db))"
    and "P db"
    and "\<forall>r \<in> set reqs. client r = ip \<longrightarrow> Q (answered r)"
  shows "P (snd (run mw reqs db))"
  using assms(2,3)
proof (induction reqs arbitrary: db)
  case Nil
  then show ?case by simp
next
  case (Cons r reqs)
  obtain c g t k where r: "r = Request c g t k" by (cases r)
  from Cons.prems(2) r have "k = ip \<longrightarrow> Q t" by simp
  with Cons.prems(1) have "P (snd (mw c g t k db))" by (rule step)
  moreover from Cons.prems(2) have "\<forall>r \<in> set reqs. client r = ip \<longrightarrow> Q (answered r)"
    by simp
  ultimately have "P (snd (run mw reqs (snd (mw c g t k db))))" by (rule Cons.IH)
  then show ?case by (simp add: r run_Cons del: run.simps)
qed

lemma list_step_keeps_expired:
  assumes "redis_get db B ip = None" and "k = ip \<longrightarrow> t + rateLimitWindow * 1000 < B"
  shows "redis_get (snd (rateLimiterMiddleware c g t k db)) B ip = None"
proof (cases "k = ip")
  case False
  then have "snd (rateLimiterMiddleware c g t k db) ip = db ip"
    by (rule rateLimiterMiddleware_frame)
  with assms(1) show ?thesis by (simp add: redis_get_def)
next
  case True
  with assms(2) have B: "t + rateLimitWindow * 1000 < B" by simp
  let ?r = "client_get c db g ip"
  show ?thesis
  proof (cases "admitted (fst (rateLimiterCallback ?r t ip db))")
    case False
    then have "snd (rateLimiterCallback ?r t ip db) = db"
      by (rule rateLimiterCallback_not_admitted)
    with assms(1) True show ?thesis by (simp add: rateLimiterMiddleware_def)
  next
    case adm: True
    from rateLimiterCallback_admitted_expiry [OF adm] obtain data where
      "snd (rateLimiterCallback ?r t ip db) ip = Some (data, Some (t + rateLimitWindow * 1000))" ..
    with True B show ?thesis
      by (simp add: rateLimiterMiddleware_def redis_get_def live_def)
  qed
qed

lemma list_limiter_fresh_after_gap:
  assumes "\<forall>r \<in> set history. client r = ip \<longrightarrow> answered r + 2 * rateLimitWindow * 1000 < g"
  shows "fst (rateLimiterMiddleware Up g now ip (snd (run rateLimiterMiddleware history Map.empty)))
           = Next"
    and "snd (rateLimiterMiddleware Up g now ip (snd (run rateLimiterMiddleware history Map.empty))) ip
           = Some ([\<lparr>timeStamp = now, requestCount = 1\<rparr>], Some (now + rateLimitWindow * 1000))"
proof -
  have "redis_get (snd (run rateLimiterMiddleware history Map.empty)) g ip = None"
  proof (rule run_preserves [where P = "\<lambda>db. redis_get db g ip = None"
        and Q = "\<lambda>t. t + rateLimitWindow * 1000 < g" and ip = ip])
    show "redis_get (Map.empty :: entry list redis) g ip = None" by (simp add: redis_get_def)
    show "\<forall>r \<in> set history. client r = ip \<longrightarrow> answered r + rateLimitWindow * 1000 < g"
      using assms by (fastforce simp: rateLimitWindow_def)
    show "\<And>c g' t k db. redis_get db g ip = None \<Longrightarrow> k = ip \<longrightarrow> t + rateLimitWindow * 1000 < g \<Longrightarrow>
        redis_get (snd (rateLimiterMiddleware c g' t k db)) g ip = None"
      by (rule list_step_keeps_expired)
  qed
  from rateLimiterMiddleware_absent [OF this]
  show "fst (rateLimiterMiddleware Up g now ip (snd (run rateLimiterMiddleware history Map.empty)))
           = Next"
    and "snd (rateLimiterMiddleware Up g now ip (snd (run rateLimiterMiddleware history Map.empty))) ip
           = Some ([\<lparr>timeStamp = now, requestCount = 1\<rparr>], Some (now + rateLimitWindow * 1000))"
    by simp_all
qed

section \<open>C9: how capacity comes back\<close>

lemma total_antitone:
  assumes "\<forall>e \<in> set data. 0 \<le> requestCount e" and "now1 \<le> now2"
  shows "totalWindowRequests (requestsWithinWindow data now2)
           \<le> totalWindowRequests (requestsWithinWindow data now1)"
  using assms
  by (induction data) (auto simp: totalWindowRequests_sum requestsWithinWindow_def Let_def)

lemma rateLimitCallback_rejected_iff:
  "rejected (fst (rateLimitCallback (Reply (Some n)) now ip db)) = (requestLimits \<le> n)"
  by (simp add: rateLimitCallback_def rejected_def)

lemma rateLimiterCallback_rejected_iff:
  "rejected (fst (rateLimiterCallback (Reply (Some data)) now ip db))
     = (maxRequests \<le> totalWindowRequests (requestsWithinWindow data now))"
  by (simp add: rateLimiterCallback_def rejected_def Let_def)

lemma ten_replicate:
  "replicate (min n (nat requestLimits)) Next @ replicate (n - nat requestLimits) x
     = replicate (min n 10) Next @ replicate (n - 10) x"
  "replicate (min n (nat maxRequests)) Next @ replicate (n - nat maxRequests) x
     = replicate (min n 10) Next @ replicate (n - 10) x"
  by (simp_all add: requestLimits_def maxRequests_def)

text \<open>
  C9, as the spec states it, fails. A client that used its quota in the first tenth of a
  second is rejected at 59 seconds and has its whole quota back at 61 seconds: ten requests
  in a row are admitted, in both limiters. With 10 requests in the previous window the
  estimate of the specification at 61 seconds reaches 10 after a single admission.
\<close>

theorem capacity_returns_at_once:
  "fst (run rateLimitMiddleware refill Map.empty)
     = replicate 10 Next @ [too_many] @ replicate 10 Next @ [too_many] \<and>
   fst (run rateLimiterMiddleware refill Map.empty)
     = replicate 10 Next @ [exceeded] @ replicate 10 Next @ [exceeded] \<and>
   10 \<le> spec_estimate 10 1 (spec_elapsedFraction 61 60)"
proof (intro conjI)
  show "fst (run rateLimitMiddleware refill Map.empty)
     = replicate 10 Next @ [too_many] @ replicate 10 Next @ [too_many]"
    by code_simp
  show "fst (run rateLimiterMiddleware refill Map.empty)
     = replicate 10 Next @ [exceeded] @ replicate 10 Next @ [exceeded]"
    by code_simp
  show "10 \<le> spec_estimate 10 1 (spec_elapsedFraction 61 60)"
    by (simp add: spec_estimate_def spec_elapsedFraction_def)
qed

text \<open>
  C9, amended. What is compared with the quota is the count read (counter limiter) or the
  sum of the counts of the entries read that are inside the last 60 seconds (list
  limiter); there is no term for a previous window and no decay factor. While its record
  is readable, a client whose count has reached 10 is rejected by the counter limiter at
  every instant, and the list limiter's sum never grows as time passes (for counts that
  are not negative). Once a client has no readable record, a burst of its requests within
  one second, handled one after the other, has its first 10 admitted and the others
  rejected, in both limiters: the quota comes back whole, not by a linear decay.
\<close>

theorem estimate_is_the_stored_count:
  "rejected (fst (rateLimitCallback (Reply (Some n)) now ip db)) = (requestLimits \<le> n) \<and>
   rejected (fst (rateLimiterCallback (Reply (Some data)) now ip db'))
     = (maxRequests \<le> totalWindowRequests (requestsWithinWindow data now)) \<and>
   (db ip = Some (n, ex) \<and> live ex g \<and> requestLimits \<le> n \<longrightarrow>
      rateLimitMiddleware Up g now ip db = (too_many, db)) \<and>
   ((\<forall>e \<in> set data. 0 \<le> requestCount e) \<and> sooner \<le> later \<longrightarrow>
      totalWindowRequests (requestsWithinWindow data later)
        \<le> totalWindowRequests (requestsWithinWindow data sooner)) \<and>
   (redis_get db a ip = None \<and> (\<forall>r \<in> set reqs. up_for ip r \<and> in_window a 1 r) \<longrightarrow>
      fst (run rateLimitMiddleware reqs db)
        = replicate (min (length reqs) 10) Next @ replicate (length reqs - 10) too_many) \<and>
   (redis_get db' a ip = None \<and> (\<forall>r \<in> set reqs. up_for ip r \<and> in_window a 1 r) \<longrightarrow>
      fst (run rateLimiterMiddleware reqs db')
        = replicate (min (length reqs) 10) Next @ replicate (length reqs - 10) exceeded)"
proof (intro conjI impI)
  show "rejected (fst (rateLimitCallback (Reply (Some n)) now ip db)) = (requestLimits \<le> n)"
    by (rule rateLimitCallback_rejected_iff)
  show "rejected (fst (rateLimiterCallback (Reply (Some data)) now ip db'))
     = (maxRequests \<le> totalWindowRequests (requestsWithinWindow data now))"
    by (rule rateLimiterCallback_rejected_iff)
next
  assume "db ip = Some (n, ex) \<and> live ex g \<and> requestLimits \<le> n"
  then show "rateLimitMiddleware Up g now ip db = (too_many, db)"
    using rateLimitMiddleware_full [of db ip n ex g now] by simp
next
  assume "(\<forall>e \<in> set data. 0 \<le> requestCount e) \<and> sooner \<le> later"
  then show "totalWindowRequests (requestsWithinWindow data later)
        \<le> totalWindowRequests (requestsWithinWindow data sooner)"
    using total_antitone [of data sooner later] by simp
next
  assume h: "redis_get db a ip = None \<and> (\<forall>r \<in> set reqs. up_for ip r \<and> in_window a 1 r)"
  then have "redis_get db a ip = None" "\<forall>r \<in> set reqs. up_for ip r \<and> in_window a 1 r"
    by simp_all
  from counter_fresh_burst [OF this]
  show "fst (run rateLimitMiddleware reqs db)
        = replicate (min (length reqs) 10) Next @ replicate (length reqs - 10) too_many"
    by (simp add: ten_replicate)
next
  assume h: "redis_get db' a ip = None \<and> (\<forall>r \<in> set reqs. up_for ip r \<and> in_window a 1 r)"
  then have "redis_get db' a ip = None" "\<forall>r \<in> set reqs. up_for ip r \<and> in_window a 1 r"
    by simp_all
  from list_fresh_burst [OF this]
  show "fst (run rateLimiterMiddleware reqs db')
        = replicate (min (length reqs) 10) Next @ replicate (length reqs - 10) exceeded"
    by (simp add: ten_replicate)
qed

theorem estimate_is_the_stored_count_witness:
  "full_counter ''10.0.0.1'' = Some (10, Some 60000) \<and> live (Some 60000) 30000 \<and>
   requestLimits \<le> 10 \<and>
   rateLimitMiddleware Up 30000 30001 ''10.0.0.1'' full_counter = (too_many, full_counter) \<and>
   list_all (\<lambda>e. 0 \<le> requestCount e) two_entries \<and> (30000 :: int) \<le> 70000 \<and>
   totalWindowRequests (requestsWithinWindow two_entries 70000)
     \<le> totalWindowRequests (requestsWithinWindow two_entries 30000) \<and>
   redis_get (Map.empty :: int redis) 0 ''10.0.0.1'' = None \<and>
   redis_get (Map.empty :: entry list redis) 0 ''10.0.0.1'' = None \<and>
   list_all (up_for ''10.0.0.1'') burst \<and> list_all (in_window 0 1) burst \<and>
   fst (run rateLimitMiddleware burst Map.empty) = replicate 10 Next @ replicate 2 too_many \<and>
   fst (run rateLimiterMiddleware burst Map.empty) = replicate 10 Next @ replicate 2 exceeded"
proof -
  have a: "full_counter ''10.0.0.1'' = Some (10, Some 60000)" by (simp add: full_counter_def)
  have b: "live (Some 60000) 30000" by (simp add: live_def)
  have c: "requestLimits \<le> 10" by (simp add: requestLimits_def)
  have d: "list_all (\<lambda>e. 0 \<le> requestCount e) two_entries" by (simp add: two_entries_def)
  then have d': "\<forall>e \<in> set two_entries. 0 \<le> requestCount e" by (simp add: list_all_iff)
  have e: "redis_get (Map.empty :: int redis) 0 ''10.0.0.1'' = None"
    and e': "redis_get (Map.empty :: entry list redis) 0 ''10.0.0.1'' = None"
    by (simp_all add: redis_get_def)
  have f: "list_all (up_for ''10.0.0.1'') burst" by code_simp
  have f': "list_all (in_window 0 1) burst" by code_simp
  from f f' have h: "\<forall>r \<in> set burst. up_for ''10.0.0.1'' r \<and> in_window 0 1 r"
    by (simp add: list_all_iff)
  have len: "length burst = 12" by code_simp
  show ?thesis
    using estimate_is_the_stored_count
        [where n = 10 and now = 30001 and ip = "''10.0.0.1''" and db = full_counter
           and ex = "Some 60000" and g = 30000 and data = two_entries and sooner = 30000
           and later = 70000 and a = 0 and reqs = burst and db' = Map.empty]
      estimate_is_the_stored_count
        [where n = 10 and now = 30001 and ip = "''10.0.0.1''" and db = Map.empty
           and data = two_entries and a = 0 and reqs = burst and db' = Map.empty]
      a b c d d' e e' f f' h
    by (simp add: len del: run.simps)
qed

end
